theory Spec2Isabelle
  imports Main "HOL-Library.AList"
begin

section \<open>Python values used by simpy.py\<close>

text \<open>
  The module works on Python 3 dictionaries from integer exponents to integer
  coefficients. A dictionary is modelled as the list of its entries in insertion order
  (the order in which Python iterates it); a well-formed dictionary has pairwise distinct
  keys. Two dictionaries are equal in Python (\<open>==\<close>) when they hold the same entries,
  whatever the order: for lists with distinct keys that is equality of \<open>map_of\<close>.

  Every exception the module can raise is a constructor of \<open>error\<close>; a function that can
  raise returns \<open>error + 'a\<close>.
\<close>

datatype error =
  ValueError | KeyError | ZeroDivisionError | RuntimeError | AttributeError | OverflowError

type_synonym laurent = "(int \<times> int) list"

text \<open>\<open>poly[power]\<close> on a \<open>defaultdict(int)\<close>: a missing key reads as 0.\<close>

definition getitem_default :: "laurent \<Rightarrow> int \<Rightarrow> int" where
  "getitem_default poly pw = (case map_of poly pw of None \<Rightarrow> 0 | Some c \<Rightarrow> c)"

text \<open>\<open>poly[power]\<close> on a plain dictionary: a missing key raises KeyError.\<close>

definition getitem :: "('k \<times> 'v) list \<Rightarrow> 'k \<Rightarrow> error + 'v" where
  "getitem d key = (case map_of d key of None \<Rightarrow> Inl KeyError | Some v \<Rightarrow> Inr v)"

text \<open>
  \<open>poly[power] += c\<close> on a \<open>defaultdict(int)\<close>: an existing key keeps its place, a new
  key is appended (\<open>AList.update\<close> does exactly this).
\<close>

definition iadd :: "int \<Rightarrow> int \<Rightarrow> laurent \<Rightarrow> laurent" where
  "iadd pw c poly = AList.update pw (getitem_default poly pw + c) poly"

text \<open>The comprehension \<open>{key: poly[key] for key in poly.keys() if poly[key] != 0}\<close>.\<close>

definition nonzero_items :: "laurent \<Rightarrow> laurent" where
  "nonzero_items poly = filter (\<lambda>(key, c). c \<noteq> 0) poly"

text \<open>
  \<open>min(poly)\<close> and \<open>max(poly)\<close> run over the keys, keeping the best key seen so far;
  on an empty dictionary they raise ValueError.
\<close>

definition py_min :: "laurent \<Rightarrow> error + int" where
  "py_min poly = (case map fst poly of [] \<Rightarrow> Inl ValueError | key # keys \<Rightarrow> Inr (fold min keys key))"

definition py_max :: "laurent \<Rightarrow> error + int" where
  "py_max poly = (case map fst poly of [] \<Rightarrow> Inl ValueError | key # keys \<Rightarrow> Inr (fold max keys key))"

text \<open>
  \<open>int(a / b)\<close>: the true division of two Python integers, truncated towards zero.
  A zero divisor raises ZeroDivisionError. Otherwise \<open>a / b\<close> is the double nearest to the
  exact quotient, a tie going to the even significand (CPython rounds the quotient of two
  integers correctly, whatever their size), and OverflowError when that double would be
  \<open>2 ^ 1024\<close> or more. For positive \<open>x\<close> and \<open>y\<close> with \<open>2 ^ e \<le> x / y < 2 ^ (e + 1)\<close> the
  double is \<open>m * 2 ^ (e - 52)\<close>, where \<open>m\<close> is \<open>x / y / 2 ^ (e - 52)\<close> rounded to an integer,
  and \<open>int\<close> takes its integral part. (Quotients below \<open>2 ^ -1022\<close> are rounded with fewer
  bits; their integral part is 0 either way.)
\<close>

function bit_length :: "int \<Rightarrow> int" where
  "bit_length n = (if n \<le> 0 then 0 else 1 + bit_length (n div 2))"
  by auto

termination by (relation "measure nat") auto

declare bit_length.simps [simp del]

definition float_exponent :: "int \<Rightarrow> int \<Rightarrow> int" where
  "float_exponent x y =
     (let d = bit_length x - bit_length y in
      if (if 0 \<le> d then y * 2 ^ nat d \<le> x else y \<le> x * 2 ^ nat (- d)) then d else d - 1)"

definition round_half_even :: "int \<Rightarrow> int \<Rightarrow> int" where
  "round_half_even num den =
     (let m = num div den; r = num mod den in
      if 2 * r < den then m
      else if den < 2 * r then m + 1
      else if even m then m else m + 1)"

definition int_truediv :: "int \<Rightarrow> int \<Rightarrow> error + int" where
  "int_truediv a b =
     (if b = 0 then Inl ZeroDivisionError
      else if a = 0 then Inr 0
      else
        (let x = \<bar>a\<bar>; y = \<bar>b\<bar>; s = float_exponent x y - 52 in
         if 0 \<le> s
         then
           (let v = round_half_even x (y * 2 ^ nat s) * 2 ^ nat s in
            if 2 ^ 1024 \<le> v then Inl OverflowError else Inr (sgn a * sgn b * v))
         else Inr (sgn a * sgn b * (round_half_even (x * 2 ^ nat (- s)) y div 2 ^ nat (- s)))))"

section \<open>Laurent polynomial arithmetic\<close>

text \<open>
  In \<open>add_laurent\<close> and \<open>multiply_laurent\<close> the loops \<open>for power in poly1.keys()\<close> read
  \<open>poly1[power]\<close> for each key they visit, so they are loops over the entries.
\<close>

definition add_laurent :: "laurent \<Rightarrow> laurent \<Rightarrow> laurent" where
  "add_laurent poly1 poly2 =
     nonzero_items
       (fold (\<lambda>(pw, c). iadd pw c) poly2
          (fold (\<lambda>(pw, c). iadd pw c) poly1 []))"

definition multiply_laurent :: "laurent \<Rightarrow> laurent \<Rightarrow> laurent" where
  "multiply_laurent poly1 poly2 =
     nonzero_items
       (fold (\<lambda>(pw1, c1). fold (\<lambda>(pw2, c2). iadd (pw1 + pw2) (c1 * c2)) poly2)
          poly1 [])"

text \<open>
  \<open>simplify_laurent\<close> pops entries from the dictionary while it iterates over its keys.
  In Python 3 a dictionary iterator checks the size of its dictionary at every step and
  raises RuntimeError once it has changed, also when the popped entry was the last one.
  So the loop runs through the entries up to the first zero coefficient, pops that entry
  and fails at the next step; with no zero coefficient it returns the dictionary it was
  given. The result is the outcome together with the final contents of the argument,
  which is updated in place.
\<close>

fun simplify_loop :: "laurent \<Rightarrow> laurent \<Rightarrow> (error + laurent) \<times> laurent" where
  "simplify_loop [] poly = (Inr poly, poly)"
| "simplify_loop ((k, c) # rest) poly =
     (if c = 0 then (Inl RuntimeError, AList.delete k poly) else simplify_loop rest poly)"

definition simplify_laurent :: "laurent \<Rightarrow> (error + laurent) \<times> laurent" where
  "simplify_laurent poly = simplify_loop poly poly"

definition symmetrize_laurent :: "laurent \<Rightarrow> error + laurent" where
  "symmetrize_laurent poly =
     (case py_max poly of
        Inl e \<Rightarrow> Inl e
      | Inr hi \<Rightarrow>
          (case py_min poly of
             Inl e \<Rightarrow> Inl e
           | Inr lo \<Rightarrow> Inr (multiply_laurent [(- ((hi + lo) div 2), 1)] poly)))"

definition positive_laurent :: "laurent \<Rightarrow> error + laurent" where
  "positive_laurent poly =
     (case py_min poly of
        Inl e \<Rightarrow> Inl e
      | Inr k \<Rightarrow> Inr (multiply_laurent [(- k, 1)] poly))"

text \<open>
  \<open>divide_laurent\<close> writes the quotient into the dictionary \<open>quotient\<close> it is given and
  returns that same object. The recursion need not end (for instance, when a leading
  term does not cancel, the dividend never changes), so the function is partial: \<open>None\<close>
  stands for a call that does not return a quotient (the interpreter ends such a call
  with RecursionError once its stack limit is reached). The limit itself is not
  modelled, here or in \<open>free_differential_a\<close>: a recursion that ends after more calls than
  the interpreter allows returns in the model and raises RecursionError in the program.
  A call that returns gives the outcome and the final contents of \<open>quotient\<close>.
\<close>

partial_function (option) divide_laurent ::
  "laurent \<Rightarrow> laurent \<Rightarrow> laurent \<Rightarrow> ((error + laurent) \<times> laurent) option" where
  "divide_laurent poly1 poly2 quot =
     (case py_max poly1 of
        Inl e \<Rightarrow> Some (Inl e, quot)
      | Inr hi1 \<Rightarrow>
          (case py_max poly2 of
             Inl e \<Rightarrow> Some (Inl e, quot)
           | Inr hi2 \<Rightarrow>
               if hi1 - hi2 = 0
               then Some (Inr (AList.update 0 1 quot), AList.update 0 1 quot)
               else
                 (case getitem poly1 hi1 of
                    Inl e \<Rightarrow> Some (Inl e, quot)
                  | Inr c1 \<Rightarrow>
                      (case getitem poly2 hi2 of
                         Inl e \<Rightarrow> Some (Inl e, quot)
                       | Inr c2 \<Rightarrow>
                           (case int_truediv c1 c2 of
                              Inl e \<Rightarrow> Some (Inl e, quot)
                            | Inr c \<Rightarrow>
                                divide_laurent
                                  (add_laurent poly1 (multiply_laurent [(hi1 - hi2, - c)] poly2))
                                  poly2
                                  (AList.update (hi1 - hi2) c quot))))))"

declare divide_laurent.simps [code]

text \<open>
  Called with two arguments, \<open>divide_laurent\<close> uses its default \<open>quotient\<close>: one
  \<open>defaultdict\<close> created when the function is defined and shared by all such calls.
  \<open>divide_default\<close> takes the current contents of that object and returns its new
  contents with the outcome.
\<close>

definition divide_default ::
  "laurent \<Rightarrow> laurent \<Rightarrow> laurent \<Rightarrow> ((error + laurent) \<times> laurent) option" where
  "divide_default shared poly1 poly2 = divide_laurent poly1 poly2 shared"

definition allones :: "int \<Rightarrow> laurent" where
  "allones p = map (\<lambda>pw. (pw, 1)) [0..p - 1]"

section \<open>Relators and abelianization\<close>

definition simple_relator :: "int \<Rightarrow> int \<Rightarrow> int \<Rightarrow> string" where
  "simple_relator p q k =
     fold (\<lambda>i relator. if (i * q) mod p < k then relator @ ''ab'' else relator @ ''a'')
       [0..p - 1] ''''"

definition hedden_relator :: "int \<Rightarrow> int \<Rightarrow> string" where
  "hedden_relator p q =
     fold (\<lambda>i relator. if (i * q) mod p + q \<ge> p then relator @ ''ba'' else relator @ ''a'')
       [0..p - 1 - 1] ''abAba''"

type_synonym abel = "(char \<times> int) list"

definition abelianization :: "string \<Rightarrow> abel" where
  "abelianization relator =
     (case fold (\<lambda>ch (j, k). if ch = CHR ''a'' then (j + 1, k) else (j, k + 1)) relator (0, 0) of
        (j, k) \<Rightarrow> [(CHR ''a'', k), (CHR ''b'', - j), (CHR ''A'', - k), (CHR ''B'', j)])"

section \<open>The two knot classes\<close>

record knot =
  knot_p :: int
  knot_q :: int
  knot_k :: int
  knot_relator :: string
  knot_abelianization :: abel
  alexander_polynomial :: laurent

text \<open>
  \<open>free_differential_a\<close> returns \<open>None\<close> (no polynomial) on the empty word; the
  recursion never reaches the empty word from a non-empty one. It is one call deep for
  every letter of the word, so on a long relator the program exceeds the interpreter's
  recursion limit, which the model does not have; what is stated below about a knot is
  stated about a knot whose construction has returned.
\<close>

fun hedden_free_differential_a :: "abel \<Rightarrow> string \<Rightarrow> error + laurent option" where
  "hedden_free_differential_a ab [] = Inr None"
| "hedden_free_differential_a ab [c] =
     (if c = CHR ''a'' then Inr (Some [(0, 1)])
      else if c = CHR ''b'' then Inr (Some [(0, 0)])
      else (case getitem ab (CHR ''a'') of
              Inl e \<Rightarrow> Inl e
            | Inr v \<Rightarrow> Inr (Some [(v, - 1)])))"
| "hedden_free_differential_a ab (c # rest) =
     (case hedden_free_differential_a ab [c] of
        Inl e \<Rightarrow> Inl e
      | Inr None \<Rightarrow> Inl AttributeError
      | Inr (Some d1) \<Rightarrow>
          (case getitem ab c of
             Inl e \<Rightarrow> Inl e
           | Inr v \<Rightarrow>
               (case hedden_free_differential_a ab rest of
                  Inl e \<Rightarrow> Inl e
                | Inr None \<Rightarrow> Inl AttributeError
                | Inr (Some d2) \<Rightarrow> Inr (Some (add_laurent d1 (multiply_laurent [(v, 1)] d2))))))"

fun simple_free_differential_a :: "abel \<Rightarrow> string \<Rightarrow> error + laurent option" where
  "simple_free_differential_a ab [] = Inr None"
| "simple_free_differential_a ab [c] =
     (if c = CHR ''a'' then Inr (Some [(0, 1)]) else Inr (Some [(0, 0)]))"
| "simple_free_differential_a ab (c # rest) =
     (case simple_free_differential_a ab [c] of
        Inl e \<Rightarrow> Inl e
      | Inr None \<Rightarrow> Inl AttributeError
      | Inr (Some d1) \<Rightarrow>
          (case getitem ab c of
             Inl e \<Rightarrow> Inl e
           | Inr v \<Rightarrow>
               (case simple_free_differential_a ab rest of
                  Inl e \<Rightarrow> Inl e
                | Inr None \<Rightarrow> Inl AttributeError
                | Inr (Some d2) \<Rightarrow> Inr (Some (add_laurent d1 (multiply_laurent [(v, 1)] d2))))))"

text \<open>
  The normalisation of the constructors. \<open>simplify_laurent(None)\<close> raises
  AttributeError (\<open>None\<close> has no \<open>keys\<close>).
\<close>

definition hedden_alexander :: "abel \<Rightarrow> string \<Rightarrow> error + laurent" where
  "hedden_alexander ab relator =
     (case hedden_free_differential_a ab relator of
        Inl e \<Rightarrow> Inl e
      | Inr None \<Rightarrow> Inl AttributeError
      | Inr (Some d) \<Rightarrow>
          (case fst (simplify_laurent d) of
             Inl e \<Rightarrow> Inl e
           | Inr s \<Rightarrow>
               (case positive_laurent s of
                  Inl e \<Rightarrow> Inl e
                | Inr pos \<Rightarrow> symmetrize_laurent pos)))"

definition hedden_knot :: "int \<Rightarrow> int \<Rightarrow> error + knot" where
  "hedden_knot p q =
     (case hedden_alexander (abelianization (hedden_relator p q)) (hedden_relator p q) of
        Inl e \<Rightarrow> Inl e
      | Inr alex \<Rightarrow>
          Inr \<lparr>knot_p = p, knot_q = q, knot_k = q + 1,
               knot_relator = hedden_relator p q,
               knot_abelianization = abelianization (hedden_relator p q),
               alexander_polynomial = alex\<rparr>)"

definition simple_alexander :: "int \<Rightarrow> abel \<Rightarrow> string \<Rightarrow> (error + laurent) option" where
  "simple_alexander p ab relator =
     (case simple_free_differential_a ab relator of
        Inl e \<Rightarrow> Some (Inl e)
      | Inr None \<Rightarrow> Some (Inl AttributeError)
      | Inr (Some d) \<Rightarrow>
          (case fst (simplify_laurent d) of
             Inl e \<Rightarrow> Some (Inl e)
           | Inr s \<Rightarrow>
               (case positive_laurent s of
                  Inl e \<Rightarrow> Some (Inl e)
                | Inr pos \<Rightarrow>
                    (case divide_laurent pos (allones p) [(0, 0)] of
                       None \<Rightarrow> None
                     | Some (Inl e, _) \<Rightarrow> Some (Inl e)
                     | Some (Inr quot, _) \<Rightarrow> Some (symmetrize_laurent quot)))))"

definition simple_knot :: "int \<Rightarrow> int \<Rightarrow> int \<Rightarrow> (error + knot) option" where
  "simple_knot p q k =
     (case simple_alexander p (abelianization (simple_relator p q k)) (simple_relator p q k) of
        None \<Rightarrow> None
      | Some (Inl e) \<Rightarrow> Some (Inl e)
      | Some (Inr alex) \<Rightarrow>
          Some (Inr \<lparr>knot_p = p, knot_q = q, knot_k = k,
                     knot_relator = simple_relator p q k,
                     knot_abelianization = abelianization (simple_relator p q k),
                     alexander_polynomial = alex\<rparr>))"

section \<open>The dictionaries a call creates and writes\<close>









section \<open>Auxiliary notions for the statements and proofs\<close>



section \<open>Facts about dictionaries and the arithmetic\<close>

lemma py_min_Nil: "py_min [] = Inl ValueError" by (simp add: py_min_def)

lemma py_min_eq: "poly \<noteq> [] \<Longrightarrow> py_min poly = Inr (Min (fst ` set poly))"
proof -
  assume "poly \<noteq> []"
  then obtain x xs where "poly = x # xs" by (cases poly) auto
  then have "py_min poly = Inr (fold min (map fst xs) (fst x))" by (simp add: py_min_def)
  also have "fold min (map fst xs) (fst x) = Min (set (fst x # map fst xs))"
    by (simp only: Min.set_eq_fold)
  finally show ?thesis using \<open>poly = x # xs\<close> by simp
qed



lemma py_min_Inr_nonempty: "py_min poly = Inr m \<Longrightarrow> poly \<noteq> []"
  by (auto simp: py_min_def)

lemma update_absent: "k \<notin> fst ` set al \<Longrightarrow> AList.update k v al = al @ [(k, v)]"
  by (induction al) auto

lemma getitem_default_absent: "pw \<notin> fst ` set poly \<Longrightarrow> getitem_default poly pw = 0"
  by (simp add: getitem_default_def map_of_eq_None_iff[THEN iffD2])

lemma map_of_getitem_default:
  "map_of poly e = (if e \<in> fst ` set poly then Some (getitem_default poly e) else None)"
  by (cases "map_of poly e") (auto simp: getitem_default_def map_of_eq_None_iff dest: map_of_SomeD intro: rev_image_eqI)

lemma iadd_absent: "pw \<notin> fst ` set poly \<Longrightarrow> iadd pw c poly = poly @ [(pw, c)]"
  by (simp add: iadd_def getitem_default_absent update_absent)

lemma fold_iadd_shift:
  "distinct (map fst poly) \<Longrightarrow> \<forall>e \<in> fst ` set poly. s + e \<notin> fst ` set acc \<Longrightarrow>
   fold (\<lambda>(pw2, c2). iadd (s + pw2) (c0 * c2)) poly acc = acc @ map (\<lambda>(e, c). (s + e, c0 * c)) poly"
proof (induction poly arbitrary: acc)
  case Nil
  then show ?case by simp
next
  case (Cons x poly)
  obtain e c where x: "x = (e, c)" by (cases x)
  have abs: "s + e \<notin> fst ` set acc" using Cons.prems(2) x by simp
  have d: "distinct (map fst poly)" and ne: "e \<notin> fst ` set poly" using Cons.prems(1) x by auto
  have "\<forall>e' \<in> fst ` set poly. s + e' \<notin> fst ` set (acc @ [(s + e, c0 * c)])"
    using Cons.prems(2) ne by auto
  from Cons.IH[OF d this] show ?case using x abs by (simp add: iadd_absent)
qed

lemma multiply_monomial:
  "distinct (map fst poly) \<Longrightarrow>
   multiply_laurent [(s, c0)] poly = nonzero_items (map (\<lambda>(e, c). (s + e, c0 * c)) poly)"
  using fold_iadd_shift[of poly s "[]" c0] by (simp add: multiply_laurent_def)

lemma set_nonzero_items: "set (nonzero_items poly) = {(k, c). (k, c) \<in> set poly \<and> c \<noteq> 0}"
  by (auto simp: nonzero_items_def)

lemma distinct_nonzero_items: "distinct (map fst poly) \<Longrightarrow> distinct (map fst (nonzero_items poly))"
  by (simp add: nonzero_items_def distinct_map_filter)


lemma map_of_nonzero_items:
  "distinct (map fst poly) \<Longrightarrow>
   map_of (nonzero_items poly) e =
     (case map_of poly e of None \<Rightarrow> None | Some c \<Rightarrow> if c \<noteq> 0 then Some c else None)"
proof (induction poly)
  case Nil
  then show ?case by (simp add: nonzero_items_def)
next
  case (Cons x poly)
  obtain k c where x: "x = (k, c)" by (cases x)
  have k: "k \<notin> fst ` set (nonzero_items poly)"
    using Cons.prems x by (auto simp: set_nonzero_items intro: rev_image_eqI)
  have IH: "map_of (nonzero_items poly) e =
     (case map_of poly e of None \<Rightarrow> None | Some c \<Rightarrow> if c \<noteq> 0 then Some c else None)"
    using Cons by simp
  show ?case
  proof (cases "k = e")
    case True
    have "map_of (nonzero_items poly) e = None" using k True by (simp add: map_of_eq_None_iff)
    then show ?thesis using x True by (simp add: nonzero_items_def)
  next
    case False
    then show ?thesis using x IH by (simp add: nonzero_items_def)
  qed
qed

subsection \<open>Loops of \<open>poly[power] += c\<close>\<close>

lemma distinct_iadd: "distinct (map fst poly) \<Longrightarrow> distinct (map fst (iadd pw c poly))"
  by (simp add: iadd_def distinct_update)

lemma distinct_fold_iadd:
  "distinct (map fst acc) \<Longrightarrow> distinct (map fst (fold (\<lambda>x. iadd (f x) (g x)) xs acc))"
  by (induction xs arbitrary: acc) (simp_all add: distinct_iadd)

lemma keys_iadd: "fst ` set (iadd pw c poly) = insert pw (fst ` set poly)"
  by (simp add: iadd_def dom_update)

lemma keys_fold_iadd:
  "fst ` set (fold (\<lambda>x. iadd (f x) (g x)) xs acc) = fst ` set acc \<union> f ` set xs"
  by (induction xs arbitrary: acc) (auto simp: keys_iadd)

lemma getitem_default_iadd:
  "getitem_default (iadd pw c poly) e = (if e = pw then getitem_default poly pw + c else getitem_default poly e)"
  by (simp add: iadd_def getitem_default_def update_conv')

lemma getitem_default_fold_iadd:
  "getitem_default (fold (\<lambda>x. iadd (f x) (g x)) xs acc) e =
     getitem_default acc e + sum_list (map g (filter (\<lambda>x. f x = e) xs))"
  by (induction xs arbitrary: acc) (auto simp: getitem_default_iadd)



lemma sum_filter_key_distinct:
  "distinct (map fst poly) \<Longrightarrow> sum_list (map snd (filter (\<lambda>x. fst x = e) poly)) = getitem_default poly e"
proof (induction poly)
  case Nil
  then show ?case by (simp add: getitem_default_def)
next
  case (Cons x poly)
  show ?case
  proof (cases "fst x = e")
    case True
    then have "e \<notin> fst ` set poly" using Cons.prems by auto
    then have "filter (\<lambda>x. fst x = e) poly = []" by (auto simp: filter_empty_conv)
    then show ?thesis using True by (cases x) (simp add: getitem_default_def)
  next
    case False
    then show ?thesis using Cons by (cases x) (simp add: getitem_default_def)
  qed
qed

lemma iadd_items_eq: "(\<lambda>(pw, c). iadd pw c) = (\<lambda>x. iadd (fst x) (snd x))"
  by (simp add: case_prod_unfold)

lemma add_laurent_alt:
  "add_laurent poly1 poly2 =
     nonzero_items (fold (\<lambda>x. iadd (fst x) (snd x)) poly2 (fold (\<lambda>x. iadd (fst x) (snd x)) poly1 []))"
  by (simp add: add_laurent_def iadd_items_eq)


lemma distinct_add_laurent: "distinct (map fst (add_laurent poly1 poly2))"
  by (simp add: add_laurent_alt distinct_nonzero_items distinct_fold_iadd)

lemma nonzero_add_laurent: "(k, c) \<in> set (add_laurent poly1 poly2) \<Longrightarrow> c \<noteq> 0"
  by (simp add: add_laurent_def set_nonzero_items)







lemma map_of_add_laurent:
  assumes "distinct (map fst poly1)" "distinct (map fst poly2)"
  shows "map_of (add_laurent poly1 poly2) e =
     (if e \<in> fst ` set poly1 \<union> fst ` set poly2 \<and> getitem_default poly1 e + getitem_default poly2 e \<noteq> 0
      then Some (getitem_default poly1 e + getitem_default poly2 e) else None)"
proof -
  let ?acc = "fold (\<lambda>x. iadd (fst x) (snd x)) poly2 (fold (\<lambda>x. iadd (fst x) (snd x)) poly1 [])"
  have d: "distinct (map fst ?acc)" by (simp add: distinct_fold_iadd)
  have k: "fst ` set ?acc = fst ` set poly1 \<union> fst ` set poly2"
    by (simp add: keys_fold_iadd Un_commute)
  have g: "getitem_default ?acc e = getitem_default poly1 e + getitem_default poly2 e"
    using assms by (simp add: getitem_default_fold_iadd sum_filter_key_distinct getitem_default_def[of "[]"])
  have "map_of ?acc e = (if e \<in> fst ` set poly1 \<union> fst ` set poly2
      then Some (getitem_default poly1 e + getitem_default poly2 e) else None)"
    using map_of_getitem_default[of ?acc e] k g by simp
  then show ?thesis
    using map_of_nonzero_items[OF d, of e] by (simp add: add_laurent_alt)
qed

lemma py_min_least: "py_min poly = Inr m \<Longrightarrow> m \<in> fst ` set poly \<and> (\<forall>e \<in> fst ` set poly. m \<le> e)"
proof -
  assume a: "py_min poly = Inr m"
  then have ne: "poly \<noteq> []" by (rule py_min_Inr_nonempty)
  then have "m = Min (fst ` set poly)" using a by (simp add: py_min_eq)
  moreover have "finite (fst ` set poly)" "fst ` set poly \<noteq> {}" using ne by auto
  ultimately show ?thesis using Min_in Min_le by blast
qed


lemma py_min_eqI:
  "m \<in> fst ` set poly \<Longrightarrow> (\<And>e. e \<in> fst ` set poly \<Longrightarrow> m \<le> e) \<Longrightarrow> py_min poly = Inr m"
proof -
  assume m: "m \<in> fst ` set poly" and le: "\<And>e. e \<in> fst ` set poly \<Longrightarrow> m \<le> e"
  then have "poly \<noteq> []" by auto
  moreover have "Min (fst ` set poly) = m" using m le by (intro Min_eqI) auto
  ultimately show ?thesis by (simp add: py_min_eq)
qed


lemma shift_monomial:
  "distinct (map fst poly) \<Longrightarrow>
   multiply_laurent [(- s, 1)] poly = nonzero_items (map (\<lambda>(e, c). (e - s, c)) poly)"
proof -
  assume "distinct (map fst poly)"
  then have "multiply_laurent [(- s, 1)] poly = nonzero_items (map (\<lambda>(e, c). (- s + e, 1 * c)) poly)"
    by (rule multiply_monomial)
  also have "(\<lambda>(e, c). (- s + e, 1 * c)) = (\<lambda>(e::int, c::int). (e - s, c))"
    by (auto simp: fun_eq_iff)
  finally show ?thesis .
qed

subsection \<open>Division, shifting and simplification\<close>




















lemma simplify_loop_raises:
  "fst (simplify_loop (before @ (k, 0) # after) poly) = Inl RuntimeError"
  by (induction before) auto

subsection \<open>What a division writes into its accumulator\<close>




subsection \<open>The arithmetic on a store\<close>













subsection \<open>Relators and letter counts\<close>

lemma abelianization_fold:
  "fold (\<lambda>ch (j, k). if ch = CHR ''a'' then (j + 1, k) else (j, k + 1)) relator (j0, k0) =
     (j0 + int (length (filter (\<lambda>ch. ch = CHR ''a'') relator)),
      k0 + int (length (filter (\<lambda>ch. ch \<noteq> CHR ''a'') relator)))"
  by (induction relator arbitrary: j0 k0) simp_all

lemma abelianization_counts:
  "abelianization relator =
     [(CHR ''a'', int (length (filter (\<lambda>ch. ch \<noteq> CHR ''a'') relator))),
      (CHR ''b'', - int (length (filter (\<lambda>ch. ch = CHR ''a'') relator))),
      (CHR ''A'', - int (length (filter (\<lambda>ch. ch \<noteq> CHR ''a'') relator))),
      (CHR ''B'', int (length (filter (\<lambda>ch. ch = CHR ''a'') relator)))]"
  by (simp add: abelianization_def abelianization_fold)

lemma fold_append_choice:
  "fold (\<lambda>i relator. if P i then relator @ u else relator @ v) xs acc =
     acc @ concat (map (\<lambda>i. if P i then u else v) xs)"
  by (induction xs arbitrary: acc) simp_all

lemma simple_relator_concat:
  "simple_relator p q k = concat (map (\<lambda>i. if (i * q) mod p < k then ''ab'' else ''a'') [0..p - 1])"
  by (simp add: simple_relator_def fold_append_choice)

lemma simple_relator_count_a:
  "length (filter (\<lambda>ch. ch = CHR ''a'') (concat (map (\<lambda>i. if P i then ''ab'' else ''a'') xs))) = length xs"
  by (induction xs) simp_all

lemma simple_relator_count_other:
  "length (filter (\<lambda>ch. ch \<noteq> CHR ''a'') (concat (map (\<lambda>i. if P i then ''ab'' else ''a'') xs))) =
     length (filter P xs)"
  by (induction xs) simp_all

lemma residues_inj:
  fixes p q :: int
  assumes p: "0 < p" and cop: "coprime p q"
  shows "inj_on (\<lambda>i. (i * q) mod p) {0..p - 1}"
proof (rule inj_onI)
  fix i j :: int
  assume i: "i \<in> {0..p - 1}" and j: "j \<in> {0..p - 1}" and eq: "(i * q) mod p = (j * q) mod p"
  from eq have "p dvd i * q - j * q" by (simp add: mod_eq_dvd_iff)
  then have "p dvd (i - j) * q" by (simp add: left_diff_distrib)
  then have d: "p dvd i - j" using cop by (simp add: coprime_dvd_mult_left_iff)
  have "\<bar>i - j\<bar> < p" using i j by auto
  with d show "i = j" using zdvd_not_zless[of "\<bar>i - j\<bar>" p] by (cases "i = j") auto
qed

lemma residues_count:
  fixes p q k :: int
  assumes p: "0 < p" and cop: "coprime p q" and k: "0 \<le> k" "k \<le> p"
  shows "length (filter (\<lambda>i. (i * q) mod p < k) [0..p - 1]) = nat k"
proof -
  let ?f = "\<lambda>i. (i * q) mod p"
  let ?A = "{0..p - 1}"
  have inj: "inj_on ?f ?A" using p cop by (rule residues_inj)
  have sub: "?f ` ?A \<subseteq> ?A" using p by auto
  have "card (?f ` ?A) = card ?A" using inj by (rule card_image)
  then have surj: "?f ` ?A = ?A" using sub by (simp add: card_subset_eq)
  let ?S = "{i \<in> ?A. ?f i < k}"
  have "?f ` ?S = {0..k - 1}"
  proof
    show "?f ` ?S \<subseteq> {0..k - 1}" using p by auto
  next
    show "{0..k - 1} \<subseteq> ?f ` ?S"
    proof
      fix j assume j: "j \<in> {0..k - 1}"
      then have "j \<in> ?A" using k by auto
      then obtain i where "i \<in> ?A" "?f i = j" using surj by (metis (no_types, lifting) imageE)
      then show "j \<in> ?f ` ?S" using j by auto
    qed
  qed
  moreover have "inj_on ?f ?S" using inj by (rule inj_on_subset) auto
  ultimately have "card ?S = card {0..k - 1}" using card_image[of ?f ?S] by simp
  moreover have "length (filter (\<lambda>i. ?f i < k) [0..p - 1]) = card ?S"
  proof -
    have "{i. ?f i < k} \<inter> set [0..p - 1] = ?S" by auto
    then show ?thesis using distinct_length_filter[of "[0..p - 1]" "\<lambda>i. ?f i < k"] by simp
  qed
  ultimately show ?thesis by simp
qed

subsection \<open>The Fox derivative and the constructors\<close>



lemma getitem_abelianization_a:
  "getitem (abelianization relator) (CHR ''a'') = Inr (int (length (filter (\<lambda>ch. ch \<noteq> CHR ''a'') relator)))"
  by (simp add: abelianization_counts getitem_def)









subsection \<open>Coefficients and exact division by \<open>allones p\<close>\<close>

















subsection \<open>The simple knots whose class is coprime to \<open>p\<close>\<close>








lemma simple_relator_abelianization:
  fixes p q k :: int
  assumes "0 < p" and "gcd p q = 1" and "0 \<le> k" and "k \<le> p"
  shows "abelianization (simple_relator p q k) =
           [(CHR ''a'', k), (CHR ''b'', - p), (CHR ''A'', - k), (CHR ''B'', p)]"
    and "length (filter (\<lambda>ch. ch = CHR ''a'') (simple_relator p q k)) = nat p"
    and "length (filter (\<lambda>ch. ch \<noteq> CHR ''a'') (simple_relator p q k)) = nat k"
proof -
  have cop: "coprime p q" using assms(2) by (simp add: coprime_iff_gcd_eq_1)
  show ca: "length (filter (\<lambda>ch. ch = CHR ''a'') (simple_relator p q k)) = nat p"
    using assms(1) by (simp add: simple_relator_concat simple_relator_count_a)
  show co: "length (filter (\<lambda>ch. ch \<noteq> CHR ''a'') (simple_relator p q k)) = nat k"
    using residues_count[OF assms(1) cop, of k] assms(3,4)
    by (simp add: simple_relator_concat simple_relator_count_other)
  show "abelianization (simple_relator p q k) =
           [(CHR ''a'', k), (CHR ''b'', - p), (CHR ''A'', - k), (CHR ''B'', p)]"
    using ca co assms(1,3) by (simp add: abelianization_counts)
qed

lemma simple_relator_letters: "set (simple_relator p q k) \<subseteq> {CHR ''a'', CHR ''b''}"
  by (auto simp: simple_relator_concat split: if_splits)




section \<open>Base cases of the Fox derivative\<close>

text \<open>
  The two variants are the other way round than stated: on the single letter \<open>A\<close> (and on
  \<open>B\<close>) it is the Hedden-knot variant that returns \<open>{abelianization("a"): -1}\<close>, and the
  Simple-knot variant that returns \<open>{0: 0}\<close>. Here the abelianization is the one of the
  relator \<open>abAbaa\<close> of \<open>hedden_knot(2, 1)\<close>, which maps \<open>a\<close> to 3.
\<close>

theorem free_differential_a_inverse_letter:
  "hedden_free_differential_a (abelianization ''abAbaa'') ''A'' = Inr (Some [(3, - 1)]) \<and>
   hedden_free_differential_a (abelianization ''abAbaa'') ''B'' = Inr (Some [(3, - 1)]) \<and>
   simple_free_differential_a (abelianization ''abAbaa'') ''A'' = Inr (Some [(0, 0)])"
  by code_simp

text \<open>
  C1 (amended). For single-character words the Simple-knot variant distinguishes two
  base cases: \<open>a\<close> yields \<open>{0: 1}\<close> and every other character (including \<open>A\<close> and \<open>B\<close>)
  yields \<open>{0: 0}\<close>. The Hedden-knot variant has an explicit third case: \<open>a\<close> yields
  \<open>{0: 1}\<close>, \<open>b\<close> yields \<open>{0: 0}\<close>, and every other character (\<open>A\<close>, and \<open>B\<close> as well)
  yields \<open>{abelianization("a"): -1}\<close>, where \<open>abelianization("a")\<close> is the number of
  letters of the relator other than \<open>a\<close>. Both variants map \<open>a\<close> to \<open>{0: 1}\<close> and \<open>b\<close>
  to \<open>{0: 0}\<close>.
\<close>

theorem free_differential_a_base_cases:
  "simple_free_differential_a ab [c] = Inr (Some (if c = CHR ''a'' then [(0, 1)] else [(0, 0)])) \<and>
   hedden_free_differential_a (abelianization relator) [c] =
     Inr (Some (if c = CHR ''a'' then [(0, 1)]
                else if c = CHR ''b'' then [(0, 0)]
                else [(int (length (filter (\<lambda>ch. ch \<noteq> CHR ''a'') relator)), - 1)])) \<and>
   getitem (abelianization relator) (CHR ''a'') =
     Inr (int (length (filter (\<lambda>ch. ch \<noteq> CHR ''a'') relator)))"
  by (simp add: getitem_abelianization_a)

section \<open>Division undone by multiplication\<close>

text \<open>
  C2. The round trip \<open>divide(multiply(p2, q), p2) == simplify(q)\<close> fails for \<open>q = {0: 2}\<close>
  and \<open>p2 = {0: 1}\<close>: the product is \<open>{0: 2}\<close>, the two leading exponents are equal at
  once, and \<open>divide_laurent\<close> stores the coefficient 1 without looking at the
  coefficients. From a fresh default accumulator the call returns \<open>{0: 1}\<close>, while
  \<open>simplify_laurent q\<close> is \<open>{0: 2}\<close>. It also fails for \<open>q = {-1: 1}\<close>: the recursion
  goes on with the empty remainder and \<open>max\<close> raises ValueError.
\<close>

theorem divide_laurent_constant_two:
  "divide_default [] (multiply_laurent [(0, 1)] [(0, 2)]) [(0, 1)] = Some (Inr [(0, 1)], [(0, 1)]) \<and>
   simplify_laurent [(0, 2)] = (Inr [(0, 2)], [(0, 2)]) \<and>
   divide_default [] (multiply_laurent [(0, 1)] [(- 1, 1)]) [(0, 1)] = Some (Inl ValueError, [(- 1, 1)])"
  by code_simp

section \<open>The simple knot with \<open>p = 2\<close>, \<open>q = 1\<close>, \<open>k = 1\<close>\<close>

text \<open>
  C3. Constructing the simple knot with \<open>p = 2\<close>, \<open>q = 1\<close>, \<open>k = 1\<close> returns, and its
  \<open>alexander_polynomial\<close> is the dictionary \<open>{0: 1}\<close>.
\<close>

theorem simple_knot_2_1_1_alexander:
  "map_option (map_sum id alexander_polynomial) (simple_knot 2 1 1) = Some (Inr [(0, 1)])"
  by code_simp

section \<open>The sum of the coefficients of the Alexander polynomial\<close>




section \<open>The support of the Alexander polynomial\<close>

text \<open>
  C5. The support of \<open>alexander_polynomial\<close> is not always symmetric about 0.
  \<open>hedden_knot(2, 1)\<close> is constructed from valid parameters, and its polynomial is
  \<open>{2: 1, 5: -1, -1: 1, -4: 1}\<close>: the minimum exponent is \<open>-4\<close>, the maximum 5, and \<open>-4\<close>
  is not \<open>-5\<close>. Likewise \<open>simple_knot(4, 1, 2)\<close> has the polynomial \<open>{0: 1, 1: 1}\<close>, with
  exponents from 0 to 1. \<open>symmetrize_laurent\<close> lowers the exponents by
  \<open>(max + min) // 2\<close>, which centres the support only when \<open>max + min\<close> is even, while its
  docstring promises a polynomial symmetric about degree 0.
\<close>

theorem alexander_polynomial_off_centre:
  "map_sum id alexander_polynomial (hedden_knot 2 1) = Inr [(2, 1), (5, - 1), (- 1, 1), (- 4, 1)] \<and>
   py_min [(2, 1), (5, - 1), (- 1, 1), (- 4, 1)] = Inr (- 4) \<and>
   py_max [(2, 1), (5, - 1), (- 1, 1), (- 4, 1)] = Inr 5 \<and>
   map_option (map_sum id alexander_polynomial) (simple_knot 4 1 2) = Some (Inr [(0, 1), (1, 1)]) \<and>
   py_min [(0, 1), (1, 1)] = Inr 0 \<and> py_max [(0, 1), (1, 1)] = Inr 1"
  by code_simp

section \<open>Purity of the arithmetic\<close>




section \<open>Simplification\<close>

text \<open>
  C7. \<open>simplify_laurent\<close> does not remove zero coefficients. On \<open>{0: 0}\<close> it does not
  return the empty dictionary: it pops the entry and the iteration over the keys then
  raises RuntimeError. The same happens on every dictionary that holds a zero coefficient
  anywhere.
\<close>

theorem simplify_laurent_zero_entry:
  "simplify_laurent [(0, 0)] = (Inl RuntimeError, []) \<and>
   fst (simplify_laurent (before @ (k, 0) # after)) = Inl RuntimeError"
proof -
  have "simplify_laurent [(0, 0)] = (Inl RuntimeError, [])" by code_simp
  then show ?thesis by (simp add: simplify_laurent_def simplify_loop_raises)
qed

section \<open>Normalisation to non-negative exponents\<close>

text \<open>
  The minimum exponent of \<open>positive_laurent p\<close> need not be 0: in \<open>{0: 0, 1: 1}\<close> the
  minimum key 0 carries the coefficient 0, the product drops it, and the result
  \<open>{1: 1}\<close> has minimum exponent 1.
\<close>

theorem positive_laurent_zero_at_min:
  "positive_laurent [(0, 0), (1, 1)] = Inr [(1, 1)] \<and> py_min [(1, 1)] = Inr 1"
  by code_simp

text \<open>
  C8 (amended). \<open>positive_laurent\<close> fails with ValueError on the empty dictionary. For
  every non-empty dictionary \<open>poly\<close> with minimum key \<open>m\<close> it returns the product of the
  monomial \<open>t^(-m)\<close> with \<open>poly\<close>, that is the entries of \<open>poly\<close> with non-zero
  coefficient, each exponent lowered by \<open>m\<close>; when the coefficient of \<open>poly\<close> at \<open>m\<close> is
  not 0, the minimum exponent of the result is 0.
\<close>

theorem positive_laurent_shift:
  assumes "poly \<noteq> []" and "distinct (map fst poly)"
  shows "positive_laurent [] = Inl ValueError \<and>
         (\<exists>m r. py_min poly = Inr m \<and> m \<in> fst ` set poly \<and> (\<forall>e \<in> fst ` set poly. m \<le> e) \<and>
            positive_laurent poly = Inr r \<and>
            r = multiply_laurent [(- m, 1)] poly \<and>
            r = nonzero_items (map (\<lambda>(e, c). (e - m, c)) poly) \<and>
            (getitem_default poly m \<noteq> 0 \<longrightarrow> py_min r = Inr 0))"
proof -
  obtain m where m: "py_min poly = Inr m" using assms(1) by (simp add: py_min_eq)
  note least = py_min_least[OF m]
  let ?r = "nonzero_items (map (\<lambda>(e, c). (e - m, c)) poly)"
  have r: "multiply_laurent [(- m, 1)] poly = ?r" using assms(2) by (rule shift_monomial)
  have pos: "positive_laurent poly = Inr ?r" using m r by (simp add: positive_laurent_def)
  have zero: "py_min ?r = Inr 0" if nz: "getitem_default poly m \<noteq> 0"
  proof (rule py_min_eqI)
    have "map_of poly m = Some (getitem_default poly m)"
      using least map_of_getitem_default[of poly m] by simp
    then have "(m, getitem_default poly m) \<in> set poly" by (rule map_of_SomeD)
    then have "(m - m, getitem_default poly m) \<in> set ?r"
      using nz by (force simp: set_nonzero_items)
    then show "0 \<in> fst ` set ?r" by (force simp: image_iff)
  next
    fix e assume "e \<in> fst ` set ?r"
    then obtain e' where "e' \<in> fst ` set poly" "e = e' - m"
      by (force simp: set_nonzero_items image_iff)
    then show "0 \<le> e" using least by auto
  qed
  show ?thesis using m least pos r zero by (simp add: positive_laurent_def py_min_Nil)
qed

theorem positive_laurent_shift_witness:
  "[(- 1, 1), (0, 1)] \<noteq> [] \<and> distinct (map fst [(- 1 :: int, 1 :: int), (0, 1)]) \<and>
   positive_laurent [(- 1, 1), (0, 1)] = Inr [(0, 1), (1, 1)] \<and> py_min [(0, 1), (1, 1)] = Inr 0"
proof -
  have ne: "[(- 1 :: int, 1 :: int), (0, 1)] \<noteq> []" and d: "distinct (map fst [(- 1 :: int, 1 :: int), (0, 1)])"
    by simp_all
  have pm: "py_min [(- 1, 1), (0, 1)] = Inr (- 1)" by code_simp
  have pos: "positive_laurent [(- 1, 1), (0, 1)] = Inr [(0, 1), (1, 1)]" by code_simp
  have g: "getitem_default [(- 1, 1), (0, 1)] (- 1) \<noteq> 0" by (simp add: getitem_default_def)
  from positive_laurent_shift[OF ne d] obtain m r where
    "py_min [(- 1, 1), (0, 1)] = Inr m" "positive_laurent [(- 1, 1), (0, 1)] = Inr r"
    "getitem_default [(- 1, 1), (0, 1)] m \<noteq> 0 \<longrightarrow> py_min r = Inr 0"
    by blast
  with pm pos g have "py_min [(0, 1), (1, 1)] = Inr 0" by simp
  with ne d pos show ?thesis by simp
qed

section \<open>Addition\<close>

text \<open>
  C9. For dictionaries \<open>poly1\<close> and \<open>poly2\<close>, \<open>add_laurent poly1 poly2\<close> holds, at every
  exponent present in either input, the sum of the two coefficients (an absent exponent
  counting as 0), and nothing else; entries whose sum is 0 are removed, and the result is
  again a dictionary. In particular \<open>add_laurent({1:1, 2:-1}, {2:1, 3:1})\<close> is
  \<open>{1:1, 3:1}\<close>.
\<close>

theorem add_laurent_coefficientwise:
  assumes "distinct (map fst poly1)" and "distinct (map fst poly2)"
  shows "map_of (add_laurent poly1 poly2) e =
           (if e \<in> fst ` set poly1 \<union> fst ` set poly2 \<and>
               getitem_default poly1 e + getitem_default poly2 e \<noteq> 0
            then Some (getitem_default poly1 e + getitem_default poly2 e) else None)
         \<and> distinct (map fst (add_laurent poly1 poly2))
         \<and> 0 \<notin> snd ` set (add_laurent poly1 poly2)
         \<and> add_laurent [(1, 1), (2, - 1)] [(2, 1), (3, 1)] = [(1, 1), (3, 1)]"
proof -
  have "add_laurent [(1, 1), (2, - 1)] [(2, 1), (3, 1)] = [(1, 1), (3, 1)]"
    by code_simp
  moreover have "0 \<notin> snd ` set (add_laurent poly1 poly2)"
    using nonzero_add_laurent[of _ 0 poly1 poly2] by force
  ultimately show ?thesis
    using map_of_add_laurent[OF assms, of e] distinct_add_laurent[of poly1 poly2] by simp
qed

theorem add_laurent_coefficientwise_witness:
  "distinct (map fst [(1::int, 1::int), (2, - 1)]) \<and> distinct (map fst [(2::int, 1::int), (3, 1)]) \<and>
   map_of (add_laurent [(1, 1), (2, - 1)] [(2, 1), (3, 1)]) 2 = None \<and>
   map_of (add_laurent [(1, 1), (2, - 1)] [(2, 1), (3, 1)]) 3 = Some 1"
  using add_laurent_coefficientwise[of "[(1, 1), (2, - 1)]" "[(2, 1), (3, 1)]" 2]
    add_laurent_coefficientwise[of "[(1, 1), (2, - 1)]" "[(2, 1), (3, 1)]" 3]
  by (simp add: getitem_default_def)

section \<open>Abelianization of the simple relator\<close>

text \<open>
  C10. For \<open>p > 0\<close>, \<open>0 < q < p\<close> with \<open>gcd p q = 1\<close> and \<open>0 < k < p\<close>, the abelianization
  of \<open>simple_relator p q k\<close> is \<open>{"a": k, "b": -p, "A": -k, "B": p}\<close>: the relator has
  exactly \<open>p\<close> letters \<open>a\<close> and exactly \<open>k\<close> letters \<open>b\<close>, because \<open>i \<mapsto> i * q mod p\<close>
  permutes \<open>0, \<dots>, p - 1\<close>; so the image of \<open>a\<close> is the homology class \<open>k\<close>.
\<close>

theorem abelianization_simple_relator:
  assumes "0 < p" and "0 < q" and "q < p" and "gcd p q = 1" and "0 < k" and "k < p"
  shows "abelianization (simple_relator p q k) =
           [(CHR ''a'', k), (CHR ''b'', - p), (CHR ''A'', - k), (CHR ''B'', p)]
         \<and> length (filter (\<lambda>ch. ch = CHR ''a'') (simple_relator p q k)) = nat p
         \<and> length (filter (\<lambda>ch. ch = CHR ''b'') (simple_relator p q k)) = nat k
         \<and> getitem (abelianization (simple_relator p q k)) (CHR ''a'') = Inr k"
proof -
  have k: "0 \<le> k" "k \<le> p" using assms(5,6) by simp_all
  note counts = simple_relator_abelianization[OF assms(1,4) k]
  have "filter (\<lambda>ch. ch = CHR ''b'') (simple_relator p q k) =
        filter (\<lambda>ch. ch \<noteq> CHR ''a'') (simple_relator p q k)"
    using simple_relator_letters[of p q k] by (intro filter_cong) auto
  then show ?thesis using counts by (simp add: getitem_def)
qed

theorem abelianization_simple_relator_witness:
  "(0::int) < 3 \<and> (0::int) < 1 \<and> (1::int) < 3 \<and> gcd (3::int) 1 = 1 \<and> (0::int) < 2 \<and> (2::int) < 3 \<and>
   abelianization (simple_relator 3 1 2) = [(CHR ''a'', 2), (CHR ''b'', - 3), (CHR ''A'', - 2), (CHR ''B'', 3)] \<and>
   simple_relator 3 1 2 = ''ababa''"
proof -
  have "simple_relator 3 1 2 = ''ababa''" by code_simp
  then show ?thesis using abelianization_simple_relator[of 3 1 2] by simp
qed

end
